theory Spec2Isabelle
  imports Complex_Main "HOL-Library.Sublist"
begin

section \<open>Data model\<close>

text \<open>
  Records of the note store (\<open>T.NoteEntity\<close>): an identifier and the note's data.
  Identifiers are JavaScript strings; the code tests them for truthiness
  (\<open>item?.id\<close>), which for a string means "not the empty string".
\<close>

type_synonym EntityId = string

record NoteEntity =
  id_of :: EntityId
  data :: string

definition truthy_id :: "EntityId \<Rightarrow> bool" where
  "truthy_id i = (i \<noteq> [])"

text \<open>
  An entry of the composite list (\<open>notesWithTagSuggestions\<close>): one of the three
  sentinel strings \<open>'tag-suggestions'\<close>, \<open>'notes-header'\<close>, \<open>'no-notes'\<close>,
  or a note.
\<close>

datatype ListItem = TagSuggestions | NotesHeader | NoNotes | Note NoteEntity

section \<open>Composite note list (src/lib/note-list/index.tsx, lines 316-326)\<close>

definition createCompositeNoteList :: "NoteEntity list \<Rightarrow> string \<Rightarrow> nat \<Rightarrow> ListItem list" where
  "createCompositeNoteList notes searchQuery tagResultsFound =
     (if length searchQuery = 0 \<or> tagResultsFound = 0 then map Note notes
      else [TagSuggestions, NotesHeader] @
           (if length notes > 0 then map Note notes else [NoNotes]))"

section \<open>Index coordinator (src/lib/search/index.ts)\<close>

text \<open>
  A JavaScript \<open>Set<T.EntityId>\<close> keeps its members in insertion order; the coordinator
  only ever asks \<open>noteIds.has(id)\<close>.
\<close>

type_synonym IdSet = "EntityId list"

definition has :: "IdSet \<Rightarrow> EntityId \<Rightarrow> bool" where
  "has noteIds i = (i \<in> set noteIds)"

text \<open>
  \<open>actions.ui.filterNotes(notes, previousIndex)\<close>: the one action the coordinator
  dispatches; \<open>previousIndex\<close> is optional.
\<close>

datatype UiAction = FilterNotes "NoteEntity list" "int option"

text \<open>
  The store as the coordinator sees it: \<open>store.getState().appState.notes\<close> (null until
  the notes are loaded) and the actions handed to \<open>store.dispatch\<close>, oldest first.
\<close>

record Store =
  appState_notes :: "NoteEntity list option"
  dispatched :: "UiAction list"

definition emptyList :: "NoteEntity list" where
  "emptyList = []"

definition setFilteredNotes :: "IdSet \<Rightarrow> int option \<Rightarrow> Store \<Rightarrow> Store" where
  "setFilteredNotes noteIds previousIndex s =
     s\<lparr>dispatched := dispatched s @
        [FilterNotes
           (case appState_notes s of
              None \<Rightarrow> emptyList
            | Some ns \<Rightarrow> filter (\<lambda>n. has noteIds (id_of n)) ns)
           previousIndex]\<rparr>"

text \<open>
  Messages posted to the search worker. A filter command carries any of \<open>openedTag\<close>
  (absent, null or a tag name), \<open>showTrash\<close> and \<open>searchQuery\<close>.
\<close>

datatype WorkerMessage =
    UpdateNote EntityId string
  | FilterNotesCmd "string option option" "bool option" "string option"

text \<open>Messages received from the worker, by \<open>event.data.action\<close>.\<close>

datatype WorkerReply = FilterNotesReply IdSet | OtherReply string

text \<open>The actions the middleware switches on; every other type is \<open>OtherAction\<close>.\<close>

datatype Action =
    App_notesLoaded "NoteEntity list"
  | REMOTE_NOTE_UPDATE EntityId string
  | OPEN_TAG string
  | SELECT_TRASH
  | SHOW_ALL_NOTES
  | SEARCH string
  | DELETE_NOTE_FOREVER "int option"
  | RESTORE_NOTE "int option"
  | TRASH_NOTE "int option"
  | App_authChanged
  | OtherAction string

text \<open>
  The closure of the middleware: the store, the messages posted on \<open>searchProcessor\<close>
  (oldest first) and the flag \<open>hasInitialized\<close>.
\<close>

record Coordinator =
  store :: Store
  posted :: "WorkerMessage list"
  hasInitialized :: bool

definition initial :: "Store \<Rightarrow> Coordinator" where
  "initial s = \<lparr>store = s, posted = [], hasInitialized = False\<rparr>"

definition postMessage :: "WorkerMessage \<Rightarrow> Coordinator \<Rightarrow> Coordinator" where
  "postMessage m c = c\<lparr>posted := posted c @ [m]\<rparr>"

definition onmessage :: "WorkerReply \<Rightarrow> Coordinator \<Rightarrow> Coordinator" where
  "onmessage r c =
     (case r of
        FilterNotesReply noteIds \<Rightarrow> c\<lparr>store := setFilteredNotes noteIds None (store c)\<rparr>
      | OtherReply _ \<Rightarrow> c)"

text \<open>
  The middleware proper. Two collaborators are not part of these sources and are taken
  as parameters: \<open>next\<close>, the rest of the middleware chain and the reducers, which runs
  first and can only change the store; and \<open>updateFilter\<close> of \<open>./worker\<close>, the
  matcher the coordinator calls directly, which returns the matching ids.
\<close>

definition middleware ::
  "(Action \<Rightarrow> Store \<Rightarrow> Store) \<Rightarrow> (string \<Rightarrow> IdSet) \<Rightarrow> Action \<Rightarrow> Coordinator \<Rightarrow> Coordinator" where
  "middleware next updateFilter action c0 =
     (let c = c0\<lparr>store := next action (store c0)\<rparr> in
      case action of
        App_notesLoaded ns \<Rightarrow>
          postMessage (FilterNotesCmd None None None)
            (if \<not> hasInitialized c
             then (fold (\<lambda>note. postMessage (UpdateNote (id_of note) (data note))) ns c)
                    \<lparr>hasInitialized := True\<rparr>
             else c)
      | REMOTE_NOTE_UPDATE noteId d \<Rightarrow> postMessage (UpdateNote noteId d) c
      | OPEN_TAG name \<Rightarrow> postMessage (FilterNotesCmd (Some (Some name)) None None) c
      | SELECT_TRASH \<Rightarrow> postMessage (FilterNotesCmd (Some None) (Some True) None) c
      | SHOW_ALL_NOTES \<Rightarrow> postMessage (FilterNotesCmd (Some None) (Some False) None) c
      | SEARCH q \<Rightarrow> postMessage (FilterNotesCmd None None (Some q)) c
      | DELETE_NOTE_FOREVER previousIndex \<Rightarrow>
          c\<lparr>store := setFilteredNotes (updateFilter ''fullSearch'') previousIndex (store c)\<rparr>
      | RESTORE_NOTE previousIndex \<Rightarrow>
          c\<lparr>store := setFilteredNotes (updateFilter ''fullSearch'') previousIndex (store c)\<rparr>
      | TRASH_NOTE previousIndex \<Rightarrow>
          c\<lparr>store := setFilteredNotes (updateFilter ''fullSearch'') previousIndex (store c)\<rparr>
      | App_authChanged \<Rightarrow>
          c\<lparr>store := setFilteredNotes (updateFilter ''fullSearch'') None (store c)\<rparr>
      | OtherAction _ \<Rightarrow> c)"

text \<open>
  A session is a sequence of events on the main thread: an action passing through the
  middleware, or a reply arriving from the worker.
\<close>

datatype Event = Dispatch Action | Message WorkerReply

definition step ::
  "(Action \<Rightarrow> Store \<Rightarrow> Store) \<Rightarrow> (string \<Rightarrow> IdSet) \<Rightarrow> Coordinator \<Rightarrow> Event \<Rightarrow> Coordinator" where
  "step next updateFilter c e =
     (case e of
        Dispatch a \<Rightarrow> middleware next updateFilter a c
      | Message r \<Rightarrow> onmessage r c)"

definition run ::
  "(Action \<Rightarrow> Store \<Rightarrow> Store) \<Rightarrow> (string \<Rightarrow> IdSet) \<Rightarrow> Coordinator \<Rightarrow> Event list \<Rightarrow> Coordinator" where
  "run next updateFilter c es = foldl (step next updateFilter) c es"

section \<open>JavaScript values used by the note list\<close>

text \<open>
  Indices are JavaScript numbers or \<open>null\<close>: \<open>int option\<close>. Reading an array
  outside its bounds, or at \<open>null\<close>, gives \<open>undefined\<close> (\<open>None\<close>); in arithmetic
  and comparisons \<open>null\<close> counts as 0; \<open>!index\<close> holds for \<open>null\<close> and for 0.
\<close>

definition nth_opt :: "'a list \<Rightarrow> int \<Rightarrow> 'a option" where
  "nth_opt xs i = (if 0 \<le> i \<and> i < int (length xs) then Some (xs ! nat i) else None)"

definition at_index :: "'a list \<Rightarrow> int option \<Rightarrow> 'a option" where
  "at_index xs ix = (case ix of None \<Rightarrow> None | Some i \<Rightarrow> nth_opt xs i)"

definition ToNumber :: "int option \<Rightarrow> int" where
  "ToNumber ix = (case ix of None \<Rightarrow> 0 | Some i \<Rightarrow> i)"

definition falsy :: "int option \<Rightarrow> bool" where
  "falsy ix = (ix = None \<or> ix = Some 0)"

text \<open>\<open>Array.prototype.findIndex\<close>: the first index whose element passes, or \<open>-1\<close>.\<close>

fun findIndex_from :: "('a \<Rightarrow> bool) \<Rightarrow> 'a list \<Rightarrow> int \<Rightarrow> int" where
  "findIndex_from p [] k = - 1"
| "findIndex_from p (x # xs) k = (if p x then k else findIndex_from p xs (k + 1))"

definition findIndex :: "('a \<Rightarrow> bool) \<Rightarrow> 'a list \<Rightarrow> int" where
  "findIndex p xs = findIndex_from p xs 0"

text \<open>
  \<open>String.prototype.toLowerCase\<close> on the key names a keyboard event carries (ASCII).
\<close>

definition lower_char :: "char \<Rightarrow> char" where
  "lower_char c =
     (case map_of (zip ''ABCDEFGHIJKLMNOPQRSTUVWXYZ'' ''abcdefghijklmnopqrstuvwxyz'') c of
        None \<Rightarrow> c
      | Some l \<Rightarrow> l)"

definition toLowerCase :: "string \<Rightarrow> string" where
  "toLowerCase s = map lower_char s"

text \<open>
  Numbers that are not indices (widths, heights) are IEEE doubles. A finite double is a
  rational; \<open>binary64\<close> is the set of them, \<open>MAX_VALUE\<close> the largest, and a result
  whose magnitude reaches \<open>OVERFLOW\<close> rounds to an infinity. The sign of a zero is not
  modelled.
\<close>

datatype JsNumber = Num rat | PosInfinity | NegInfinity | NaN

definition binary64 :: "rat set" where
  "binary64 = {x. \<exists>(m::int) (a::nat) (b::nat).
                 x = of_int m * 2 ^ a / 2 ^ b \<and> \<bar>m\<bar> < 2 ^ 53 \<and> a \<le> 971 \<and> b \<le> 1074}"

definition MAX_VALUE :: rat where
  "MAX_VALUE = 2 ^ 1024 - 2 ^ 971"

definition OVERFLOW :: rat where
  "OVERFLOW = 2 ^ 1024 - 2 ^ 970"

text \<open>
  A representable bound used for line counts: a twenty-fourth of \<open>MAX_VALUE\<close> lies
  below it, and 21 times it lies below the overflow threshold.
\<close>

definition LINES_BOUND :: rat where
  "LINES_BOUND = 3 * 2 ^ 1018"

text \<open>
  Rounding to the nearest double, ties to the even significand. \<open>spacing k\<close> is the
  distance \<open>2 ^ (k - 1074)\<close> between neighbouring doubles, from the subnormals
  (\<open>k = 0\<close>) to the largest binade (\<open>k = 2045\<close>); a magnitude is rounded on the
  finest spacing that needs no more than 53 bits for it.
\<close>

definition spacing :: "nat \<Rightarrow> rat" where
  "spacing k = 2 ^ k / 2 ^ 1074"

fun spacing_index :: "rat \<Rightarrow> nat \<Rightarrow> nat \<Rightarrow> nat" where
  "spacing_index a k 0 = k"
| "spacing_index a k (Suc fuel) =
     (if a < 2 ^ 53 * spacing k then k else spacing_index a (Suc k) fuel)"

definition ties_to_even :: "rat \<Rightarrow> int" where
  "ties_to_even y =
     (let n = \<lfloor>y\<rfloor>; d = y - of_int n in
      if d < 1 / 2 then n
      else if 1 / 2 < d then n + 1
      else if even n then n else n + 1)"

definition round_magnitude :: "rat \<Rightarrow> rat" where
  "round_magnitude a =
     (let u = spacing (spacing_index a 0 2045) in of_int (ties_to_even (a / u)) * u)"

definition binary64_round :: "rat \<Rightarrow> JsNumber" where
  "binary64_round x =
     (if OVERFLOW \<le> x then PosInfinity
      else if x \<le> - OVERFLOW then NegInfinity
      else if 0 \<le> x then Num (round_magnitude x)
      else Num (- round_magnitude (- x)))"

text \<open>
  Every arithmetic operation returns its exact result rounded: \<open>a - b\<close>, \<open>k + x\<close> and
  \<open>k * x\<close> for finite \<open>a\<close>, \<open>b\<close>, \<open>k\<close>, and \<open>a / b\<close> for a finite \<open>a\<close>. A divisor
  that is zero here is the positive zero (it is a difference of two doubles), so the
  quotient takes the sign of the dividend, and \<open>0 / 0\<close> is \<open>NaN\<close>. \<open>Math.ceil\<close> of a
  double is a double, so it is not rounded.
\<close>

definition js_minus :: "rat \<Rightarrow> rat \<Rightarrow> JsNumber" where
  "js_minus a b = binary64_round (a - b)"

fun js_divide :: "rat \<Rightarrow> JsNumber \<Rightarrow> JsNumber" where
  "js_divide a (Num b) =
     (if b \<noteq> 0 then binary64_round (a / b)
      else if 0 < a then PosInfinity
      else if a < 0 then NegInfinity
      else NaN)"
| "js_divide a PosInfinity = Num 0"
| "js_divide a NegInfinity = Num 0"
| "js_divide a NaN = NaN"

fun Math_ceil :: "JsNumber \<Rightarrow> JsNumber" where
  "Math_ceil (Num q) = Num (of_int \<lceil>q\<rceil>)"
| "Math_ceil x = x"

fun Math_min :: "rat \<Rightarrow> JsNumber \<Rightarrow> JsNumber" where
  "Math_min m (Num q) = Num (min m q)"
| "Math_min m PosInfinity = Num m"
| "Math_min m NegInfinity = NegInfinity"
| "Math_min m NaN = NaN"

fun js_times :: "rat \<Rightarrow> JsNumber \<Rightarrow> JsNumber" where
  "js_times k (Num q) = binary64_round (k * q)"
| "js_times k PosInfinity = (if 0 < k then PosInfinity else if k < 0 then NegInfinity else NaN)"
| "js_times k NegInfinity = (if 0 < k then NegInfinity else if k < 0 then PosInfinity else NaN)"
| "js_times k NaN = NaN"

fun js_plus :: "rat \<Rightarrow> JsNumber \<Rightarrow> JsNumber" where
  "js_plus k (Num q) = binary64_round (k + q)"
| "js_plus k x = x"

section \<open>Row heights (src/lib/note-list/index.tsx, lines 92-210)\<close>

datatype ListDisplayMode = Comfy | Condensed | Expanded

definition ROW_HEIGHT_BASE :: rat where
  "ROW_HEIGHT_BASE = 24 + 18"

definition ROW_HEIGHT_LINE :: rat where
  "ROW_HEIGHT_LINE = 21"

fun maxPreviewLines :: "ListDisplayMode \<Rightarrow> rat" where
  "maxPreviewLines Comfy = 1"
| "maxPreviewLines Condensed = 0"
| "maxPreviewLines Expanded = 4"

definition HEADER_HEIGHT :: rat where
  "HEADER_HEIGHT = 28"

definition TAG_ROW_HEIGHT :: rat where
  "TAG_ROW_HEIGHT = 40"

definition EMPTY_DIV_HEIGHT :: rat where
  "EMPTY_DIV_HEIGHT = 200"

text \<open>
  \<open>getTextWidth\<close> sets the width of its canvas and asks the canvas to measure the text.
  The canvas belongs to the browser: \<open>measureText\<close> stands for it (text and canvas
  width to pixels). The state threaded through is the number of measurements made.
\<close>

definition getTextWidth ::
  "(string \<Rightarrow> JsNumber \<Rightarrow> rat) \<Rightarrow> string \<Rightarrow> JsNumber \<Rightarrow> nat \<Rightarrow> rat \<times> nat" where
  "getTextWidth measureText text width measured = (measureText text width, Suc measured)"

definition computeRowHeight ::
  "(string \<Rightarrow> JsNumber \<Rightarrow> rat) \<Rightarrow>
   rat \<Rightarrow> ListDisplayMode \<Rightarrow> string \<Rightarrow> nat \<Rightarrow> JsNumber \<times> nat" where
  "computeRowHeight measureText width noteDisplay preview measured =
     (if Condensed = noteDisplay then (Num ROW_HEIGHT_BASE, measured)
      else
        (case getTextWidth measureText preview (js_minus width 24) measured of
           (textWidth, measured') \<Rightarrow>
             (let lines = Math_ceil (js_divide textWidth (js_minus width 24)) in
              (js_plus ROW_HEIGHT_BASE
                 (js_times ROW_HEIGHT_LINE (Math_min (maxPreviewLines noteDisplay) lines)),
               measured'))))"

text \<open>
  The cache \<open>previewCache\<close>: note id to (width, display mode, preview, height).
\<close>

type_synonym PreviewCache = "EntityId \<rightharpoonup> (rat \<times> ListDisplayMode \<times> string \<times> JsNumber)"

record HeightProps =
  noteDisplay :: ListDisplayMode
  tagResultsFound :: nat
  width :: rat

datatype JsError = TypeError

text \<open>
  \<open>rowHeightCache f\<close>. \<open>f\<close> produces the height and threads its own state;
  \<open>getNoteTitleAndPreview\<close> lives in another module and is a parameter (title and
  preview of a note). Reading \<open>note.id\<close> of a row past the end of the list throws.
\<close>

definition rowHeightCache ::
  "(rat \<Rightarrow> ListDisplayMode \<Rightarrow> string \<Rightarrow> 's \<Rightarrow> JsNumber \<times> 's) \<Rightarrow> (NoteEntity \<Rightarrow> string \<times> string) \<Rightarrow>
   ListItem list \<Rightarrow> HeightProps \<Rightarrow> int \<Rightarrow> PreviewCache \<times> 's \<Rightarrow> JsError + (JsNumber \<times> PreviewCache \<times> 's)" where
  "rowHeightCache f getNoteTitleAndPreview notes props index st =
     (case st of (previewCache, s) \<Rightarrow>
      (case nth_opt notes index of
         None \<Rightarrow> Inl TypeError
       | Some NotesHeader \<Rightarrow> Inr (Num HEADER_HEIGHT, previewCache, s)
       | Some TagSuggestions \<Rightarrow>
           Inr (js_plus HEADER_HEIGHT
                  (js_times TAG_ROW_HEIGHT (Num (of_nat (tagResultsFound props)))),
                previewCache, s)
       | Some NoNotes \<Rightarrow> Inr (Num EMPTY_DIV_HEIGHT, previewCache, s)
       | Some (Note note) \<Rightarrow>
           (let preview = snd (getNoteTitleAndPreview note);
                key = id_of note;
                miss = (case f (width props) (noteDisplay props) preview s of
                          (height, s') \<Rightarrow>
                            Inr (height,
                                 previewCache(key \<mapsto> (width props, noteDisplay props, preview, height)),
                                 s'))
            in case previewCache key of
                 None \<Rightarrow> miss
               | Some (cWidth, cNoteDisplay, cPreview, cHeight) \<Rightarrow>
                   if cWidth = width props \<and> cNoteDisplay = noteDisplay props \<and> cPreview = preview
                   then Inr (cHeight, previewCache, s)
                   else miss)))"

definition getRowHeight ::
  "(string \<Rightarrow> JsNumber \<Rightarrow> rat) \<Rightarrow> (NoteEntity \<Rightarrow> string \<times> string) \<Rightarrow>
   ListItem list \<Rightarrow> HeightProps \<Rightarrow> int \<Rightarrow> PreviewCache \<times> nat \<Rightarrow> JsError + (JsNumber \<times> PreviewCache \<times> nat)" where
  "getRowHeight measureText = rowHeightCache (computeRowHeight measureText)"

section \<open>Selection (src/lib/note-list/index.tsx, lines 328-516)\<close>

text \<open>The component's state \<open>selected\<close> and the props the selection code reads.
  \<open>openedTag\<close> is compared by reference (\<open>===\<close> on objects): a tag is its reference.\<close>

record Selected =
  noteId :: "EntityId option"
  index :: "int option"

text \<open>The field \<open>notes\<close> of the props is \<open>notes_prop\<close> here.\<close>

record Props =
  notes_prop :: "NoteEntity list"
  openedTag :: "nat option"
  selectedNote :: "NoteEntity option"
  showTrash :: bool

text \<open>\<open>selectedNote.id === notes[index]?.id\<close>, false when either side is missing.\<close>

definition same_id :: "NoteEntity option \<Rightarrow> NoteEntity option \<Rightarrow> bool" where
  "same_id a b =
     (case a of
        None \<Rightarrow> False
      | Some x \<Rightarrow> (case b of None \<Rightarrow> False | Some y \<Rightarrow> id_of x = id_of y))"

definition getHighlightedIndex :: "Selected \<Rightarrow> Props \<Rightarrow> int option" where
  "getHighlightedIndex state props =
     (if length (notes_prop props) = 0 then None
      else if selectedNote props = None \<and> falsy (index state) then
        (let firstNote = findIndex (\<lambda>item. truthy_id (id_of item)) (notes_prop props) in
         if firstNote > - 1 then Some firstNote else None)
      else if same_id (selectedNote props) (at_index (notes_prop props) (index state)) then index state
      else
        (let noteAt = findIndex (\<lambda>item. same_id (Some item) (selectedNote props)) (notes_prop props) in
         if selectedNote props \<noteq> None \<and> noteAt > - 1 then Some noteAt
         else if selectedNote props \<noteq> None
           then Some (min (ToNumber (index state)) (int (length (notes_prop props)) - 1))
         else index state))"

text \<open>
  \<open>UNSAFE_componentWillReceiveProps\<close>: the new state and the calls of
  \<open>this.props.onSelectNote\<close>. \<open>keepsSelection\<close> is the condition of its first
  \<open>if\<close>, under which it returns at once. \<open>notes[nextIndex].id\<close> throws when the
  resolved index is outside the list.
\<close>

definition keepsSelection :: "Selected \<Rightarrow> Props \<Rightarrow> Props \<Rightarrow> bool" where
  "keepsSelection state thisProps nextProps =
     (\<not> falsy (index state) \<and> selectedNote nextProps \<noteq> None
      \<and> same_id (at_index (notes_prop nextProps) (index state)) (selectedNote nextProps)
      \<and> showTrash nextProps = showTrash thisProps
      \<and> openedTag nextProps = openedTag thisProps)"

definition componentWillReceiveProps ::
  "Selected \<Rightarrow> Props \<Rightarrow> Props \<Rightarrow> JsError + (Selected \<times> EntityId list)" where
  "componentWillReceiveProps state thisProps nextProps =
     (if keepsSelection state thisProps nextProps
      then Inr (state, [])
      else
        (case getHighlightedIndex state nextProps of
           None \<Rightarrow> Inr (\<lparr>noteId = None, index = None\<rparr>, [])
         | Some nextIndex \<Rightarrow>
             (case nth_opt (notes_prop nextProps) nextIndex of
                None \<Rightarrow> Inl TypeError
              | Some target \<Rightarrow>
                  Inr (\<lparr>noteId = Some (id_of target), index = Some nextIndex\<rparr>,
                       if selectedNote nextProps = None
                          \<or> \<not> same_id (selectedNote nextProps) (Some target)
                       then [id_of target] else []))))"

text \<open>
  \<open>handleShortcut\<close>: what it returns, the calls of \<open>this.props.onSelectNote\<close>, and
  whether it stopped the event's propagation and prevented its default action.
\<close>

record KeyEvent =
  ctrlKey :: bool
  key :: string
  metaKey :: bool
  shiftKey :: bool

record Outcome =
  returned :: bool
  onSelectNote_calls :: "EntityId list"
  stopPropagation :: bool
  preventDefault :: bool

definition passed_on :: Outcome where
  "passed_on = \<lparr>returned = True, onSelectNote_calls = [], stopPropagation = False, preventDefault = False\<rparr>"

definition handled :: "EntityId \<Rightarrow> Outcome" where
  "handled i = \<lparr>returned = False, onSelectNote_calls = [i], stopPropagation = True, preventDefault = True\<rparr>"

definition isMoveUp :: "KeyEvent \<Rightarrow> bool" where
  "isMoveUp event =
     ((ctrlKey event \<or> metaKey event) \<and> shiftKey event
      \<and> (key event = ''ArrowUp'' \<or> toLowerCase (key event) = ''k''))"

definition isMoveDown :: "KeyEvent \<Rightarrow> bool" where
  "isMoveDown event =
     ((ctrlKey event \<or> metaKey event) \<and> shiftKey event
      \<and> (key event = ''ArrowDown'' \<or> toLowerCase (key event) = ''j''))"

definition handleShortcut :: "Selected \<Rightarrow> Props \<Rightarrow> KeyEvent \<Rightarrow> Outcome" where
  "handleShortcut state props event =
     (let highlightedIndex = getHighlightedIndex state props in
      if isMoveUp event then
        (if Some (- 1) = highlightedIndex then passed_on
         else if ToNumber (index state) < 0 then passed_on
         else (case nth_opt (notes_prop props) (ToNumber (index state) - 1) of
                 None \<Rightarrow> passed_on
               | Some n \<Rightarrow> if truthy_id (id_of n) then handled (id_of n) else passed_on))
      else if isMoveDown event then
        (if Some (- 1) = highlightedIndex then passed_on
         else if ToNumber (index state) \<ge> int (length (notes_prop props)) then passed_on
         else (case nth_opt (notes_prop props) (ToNumber (index state) + 1) of
                 None \<Rightarrow> passed_on
               | Some n \<Rightarrow> if truthy_id (id_of n) then handled (id_of n) else passed_on))
      else passed_on)"

text \<open>
  The slot a move command aims at, next to the recorded index, and its identifier when
  the slot holds a record with a valid one.
\<close>

definition neighbor_id :: "Selected \<Rightarrow> Props \<Rightarrow> int \<Rightarrow> EntityId option" where
  "neighbor_id state props delta =
     (case nth_opt (notes_prop props) (ToNumber (index state) + delta) of
        None \<Rightarrow> None
      | Some n \<Rightarrow> if truthy_id (id_of n) then Some (id_of n) else None)"

section \<open>Sample records\<close>

text \<open>Three records of a store, used where a property is evaluated on concrete input.\<close>

definition nA :: NoteEntity where
  "nA = \<lparr>id_of = ''a'', data = ''cat one''\<rparr>"

definition nB :: NoteEntity where
  "nB = \<lparr>id_of = ''b'', data = ''dog''\<rparr>"

definition nC :: NoteEntity where
  "nC = \<lparr>id_of = ''c'', data = ''cat two''\<rparr>"

text \<open>
  A stand-in for the canvas, eight pixels a character, and for the title and preview
  of a note; used for concrete inputs only.
\<close>

definition sample_measureText :: "string \<Rightarrow> JsNumber \<Rightarrow> rat" where
  "sample_measureText text w = 8 * of_nat (length text)"

definition sample_titleAndPreview :: "NoteEntity \<Rightarrow> string \<times> string" where
  "sample_titleAndPreview n = (id_of n, data n)"

section \<open>Properties of the composite list\<close>

text \<open>
  C4. For every filtered record list, query string and tag-suggestion count: when the
  query is empty or the count is 0 the projection is the record list itself, one real
  row per record and no synthetic row; otherwise it is the tag-suggestions row, then the
  header row, then the records when there are any, or the single empty-placeholder row
  when there are none. In particular the empty list with query "abc" and count 3 gives
  exactly tag-suggestions, header, placeholder. (The tag-suggestions entry is the
  sentinel \<open>'tag-suggestions'\<close>; the count travels beside the list as
  \<open>tagResultsFound\<close>.)
\<close>

theorem createCompositeNoteList_project:
  "(query = [] \<or> suggestions = 0 \<longrightarrow>
      createCompositeNoteList records query suggestions = map Note records)
   \<and> (query \<noteq> [] \<and> suggestions \<noteq> 0 \<and> records \<noteq> [] \<longrightarrow>
      createCompositeNoteList records query suggestions
        = TagSuggestions # NotesHeader # map Note records)
   \<and> (query \<noteq> [] \<and> suggestions \<noteq> 0 \<and> records = [] \<longrightarrow>
      createCompositeNoteList records query suggestions
        = [TagSuggestions, NotesHeader, NoNotes])
   \<and> createCompositeNoteList [] ''abc'' 3 = [TagSuggestions, NotesHeader, NoNotes]"
  by (simp add: createCompositeNoteList_def)

theorem createCompositeNoteList_project_witness:
  "createCompositeNoteList [\<lparr>id_of = ''a'', data = ''x''\<rparr>] '''' 3
      = [Note \<lparr>id_of = ''a'', data = ''x''\<rparr>]
   \<and> createCompositeNoteList [\<lparr>id_of = ''a'', data = ''x''\<rparr>] ''abc'' 3
      = [TagSuggestions, NotesHeader, Note \<lparr>id_of = ''a'', data = ''x''\<rparr>]
   \<and> createCompositeNoteList [] ''abc'' 2 = [TagSuggestions, NotesHeader, NoNotes]"
  using createCompositeNoteList_project [of "''''" 3 "[\<lparr>id_of = ''a'', data = ''x''\<rparr>]"]
        createCompositeNoteList_project [of "''abc''" 3 "[\<lparr>id_of = ''a'', data = ''x''\<rparr>]"]
        createCompositeNoteList_project [of "''abc''" 2 "[]"]
  by simp

section \<open>Properties of the index coordinator\<close>

subsection \<open>What the handlers leave alone\<close>

lemma hasInitialized_onmessage: "hasInitialized (onmessage r c) = hasInitialized c"
  by (simp add: onmessage_def split: WorkerReply.splits)

lemma posted_fold_postMessage:
  "posted (fold (\<lambda>x. postMessage (g x)) xs c) = posted c @ map g xs"
  by (induction xs arbitrary: c) (simp_all add: postMessage_def)

lemma hasInitialized_middleware:
  "hasInitialized c \<Longrightarrow> hasInitialized (middleware nxt uf a c)"
  by (cases a) (simp_all add: middleware_def postMessage_def Let_def)

lemma hasInitialized_notesLoaded:
  "hasInitialized (middleware nxt uf (App_notesLoaded ns) c)"
  by (simp add: middleware_def postMessage_def Let_def)

lemma hasInitialized_step:
  "hasInitialized c \<Longrightarrow> hasInitialized (step nxt uf c e)"
  by (cases e) (simp_all add: step_def hasInitialized_middleware hasInitialized_onmessage)

lemma hasInitialized_run:
  "hasInitialized c \<Longrightarrow> hasInitialized (run nxt uf c es)"
  unfolding run_def
  by (induction es arbitrary: c) (simp_all add: hasInitialized_step)

lemma run_append: "run nxt uf c (es @ es') = run nxt uf (run nxt uf c es) es'"
  by (simp add: run_def)

lemma run_Cons: "run nxt uf c (e # es) = run nxt uf (step nxt uf c e) es"
  by (simp add: run_def)

lemma posted_notesLoaded_initialized:
  "hasInitialized c \<Longrightarrow>
   posted (middleware nxt uf (App_notesLoaded ns) c) = posted c @ [FilterNotesCmd None None None]"
  by (simp add: middleware_def postMessage_def Let_def)

lemma posted_notesLoaded_first:
  "\<not> hasInitialized c \<Longrightarrow>
   posted (middleware nxt uf (App_notesLoaded ns) c)
     = posted c @ map (\<lambda>n. UpdateNote (id_of n) (data n)) ns @ [FilterNotesCmd None None None]"
  by (simp add: middleware_def postMessage_def Let_def posted_fold_postMessage)

subsection \<open>Filter replies\<close>

text \<open>
  C1. A filter reply carrying a set of ids makes the coordinator dispatch exactly one
  \<open>filterNotes\<close> action. Its list is the live record list restricted to the ids of the
  reply: a subsequence of the live list, so in the live list's order; its members are
  exactly the live records whose id is in the reply, so an id with no live record adds
  nothing; and a reply holding the same ids in another order gives the same dispatch.
  The list and the optional hint (absent on this path) travel in that one action.
\<close>

theorem filter_reply_live_order:
  assumes "appState_notes (store c) = Some live"
  shows "onmessage (FilterNotesReply noteIds) c
           = c\<lparr>store := (store c)\<lparr>dispatched := dispatched (store c) @
                 [FilterNotes (filter (\<lambda>n. id_of n \<in> set noteIds) live) None]\<rparr>\<rparr>
         \<and> subseq (filter (\<lambda>n. id_of n \<in> set noteIds) live) live
         \<and> set (filter (\<lambda>n. id_of n \<in> set noteIds) live)
             = {n. n \<in> set live \<and> id_of n \<in> set noteIds}
         \<and> (set noteIds' = set noteIds \<longrightarrow>
              onmessage (FilterNotesReply noteIds') c = onmessage (FilterNotesReply noteIds) c)
         \<and> setFilteredNotes noteIds hint (store c)
           = (store c)\<lparr>dispatched := dispatched (store c) @
                 [FilterNotes (filter (\<lambda>n. id_of n \<in> set noteIds) live) hint]\<rparr>"
  using assms by (auto simp add: onmessage_def setFilteredNotes_def has_def)

theorem filter_reply_live_order_witness:
  "onmessage (FilterNotesReply [''c'', ''zz'', ''a''])
      \<lparr>store = \<lparr>appState_notes = Some [nA, nB, nC], dispatched = []\<rparr>,
       posted = [], hasInitialized = True\<rparr>
    = \<lparr>store = \<lparr>appState_notes = Some [nA, nB, nC], dispatched = [FilterNotes [nA, nC] None]\<rparr>,
       posted = [], hasInitialized = True\<rparr>
   \<and> onmessage (FilterNotesReply [''a'', ''c'', ''zz''])
      \<lparr>store = \<lparr>appState_notes = Some [nA, nB, nC], dispatched = []\<rparr>,
       posted = [], hasInitialized = True\<rparr>
    = onmessage (FilterNotesReply [''c'', ''zz'', ''a''])
      \<lparr>store = \<lparr>appState_notes = Some [nA, nB, nC], dispatched = []\<rparr>,
       posted = [], hasInitialized = True\<rparr>"
  using filter_reply_live_order [of
      "\<lparr>store = \<lparr>appState_notes = Some [nA, nB, nC], dispatched = []\<rparr>,
        posted = [], hasInitialized = True\<rparr>"
      "[nA, nB, nC]" "[''a'', ''c'', ''zz'']" "[''c'', ''zz'', ''a'']" None]
  by (simp add: nA_def nB_def nC_def insert_commute)

text \<open>
  C10. A filter reply that arrives while the store holds no record collection yet
  (\<open>appState.notes\<close> is null) makes the coordinator dispatch the empty filtered list,
  whatever ids the reply carries; nothing is raised.
\<close>

theorem filter_reply_before_load:
  assumes "appState_notes (store c) = None"
  shows "onmessage (FilterNotesReply noteIds) c
           = c\<lparr>store := (store c)\<lparr>dispatched := dispatched (store c) @ [FilterNotes [] None]\<rparr>\<rparr>"
  using assms by (simp add: onmessage_def setFilteredNotes_def emptyList_def)

theorem filter_reply_before_load_witness:
  "onmessage (FilterNotesReply [''c'', ''a''])
      \<lparr>store = \<lparr>appState_notes = None, dispatched = []\<rparr>, posted = [], hasInitialized = False\<rparr>
    = \<lparr>store = \<lparr>appState_notes = None, dispatched = [FilterNotes [] None]\<rparr>,
       posted = [], hasInitialized = False\<rparr>"
  using filter_reply_before_load [of
      "\<lparr>store = \<lparr>appState_notes = None, dispatched = []\<rparr>, posted = [], hasInitialized = False\<rparr>"
      "[''c'', ''a'']"]
  by simp

subsection \<open>The one-shot bulk load\<close>

text \<open>
  C3. In a session the corpus is sent to the indexer once. From the initial state the
  first "notes loaded" event posts one upsert per record and then one filter command.
  After any session in which a "notes loaded" event has been processed, whatever events
  came before and after it, a further "notes loaded" event posts the filter command and
  nothing else: no upsert is sent again.
\<close>

theorem notesLoaded_one_shot:
  "posted (step nxt uf (initial s) (Dispatch (App_notesLoaded ns)))
      = map (\<lambda>n. UpdateNote (id_of n) (data n)) ns @ [FilterNotesCmd None None None]
   \<and> posted (step nxt uf
               (run nxt uf c0 (before @ Dispatch (App_notesLoaded ns) # later))
               (Dispatch (App_notesLoaded ms)))
      = posted (run nxt uf c0 (before @ Dispatch (App_notesLoaded ns) # later))
          @ [FilterNotesCmd None None None]"
proof -
  have first: "posted (step nxt uf (initial s) (Dispatch (App_notesLoaded ns)))
      = map (\<lambda>n. UpdateNote (id_of n) (data n)) ns @ [FilterNotesCmd None None None]"
    using posted_notesLoaded_first [of "initial s" nxt uf ns]
    by (simp add: step_def initial_def)
  let ?c = "run nxt uf c0 (before @ Dispatch (App_notesLoaded ns) # later)"
  have "hasInitialized (step nxt uf (run nxt uf c0 before) (Dispatch (App_notesLoaded ns)))"
    by (simp add: step_def hasInitialized_notesLoaded)
  then have "hasInitialized ?c"
    by (simp add: run_append run_Cons hasInitialized_run)
  then have "posted (step nxt uf ?c (Dispatch (App_notesLoaded ms)))
      = posted ?c @ [FilterNotesCmd None None None]"
    by (simp add: step_def posted_notesLoaded_initialized)
  with first show ?thesis by simp
qed

subsection \<open>Destructive actions and authentication changes\<close>

text \<open>
  C7. A permanent delete, a restore or a move to trash posts nothing to the indexer:
  within the same call the coordinator dispatches one \<open>filterNotes\<close> action whose list is
  the store's records (as they are after the action has been reduced) restricted to the
  ids its own matcher \<open>updateFilter('fullSearch')\<close> returns, with the action's
  \<open>previousIndex\<close> as the hint. An authentication change does the same with no hint.
\<close>

theorem destructive_actions_rebuild:
  assumes "action = DELETE_NOTE_FOREVER previousIndex \<or> action = RESTORE_NOTE previousIndex
           \<or> action = TRASH_NOTE previousIndex"
  shows "posted (middleware nxt updateFilter action c) = posted c
       \<and> store (middleware nxt updateFilter action c)
           = (nxt action (store c))\<lparr>dispatched := dispatched (nxt action (store c)) @
               [FilterNotes
                  (case appState_notes (nxt action (store c)) of
                     None \<Rightarrow> []
                   | Some ns \<Rightarrow> filter (\<lambda>n. id_of n \<in> set (updateFilter ''fullSearch'')) ns)
                  previousIndex]\<rparr>
       \<and> posted (middleware nxt updateFilter App_authChanged c) = posted c
       \<and> store (middleware nxt updateFilter App_authChanged c)
           = (nxt App_authChanged (store c))\<lparr>dispatched := dispatched (nxt App_authChanged (store c)) @
               [FilterNotes
                  (case appState_notes (nxt App_authChanged (store c)) of
                     None \<Rightarrow> []
                   | Some ns \<Rightarrow> filter (\<lambda>n. id_of n \<in> set (updateFilter ''fullSearch'')) ns)
                  None]\<rparr>"
  using assms
  by (auto simp add: middleware_def setFilteredNotes_def has_def emptyList_def Let_def
           split: option.splits)

theorem destructive_actions_rebuild_witness:
  "store (middleware (\<lambda>a s. s\<lparr>appState_notes := Some [nA, nC]\<rparr>) (\<lambda>_. [''c'', ''a''])
            (TRASH_NOTE (Some 1))
            \<lparr>store = \<lparr>appState_notes = Some [nA, nB, nC], dispatched = []\<rparr>,
             posted = [], hasInitialized = True\<rparr>)
    = \<lparr>appState_notes = Some [nA, nC], dispatched = [FilterNotes [nA, nC] (Some 1)]\<rparr>
   \<and> posted (middleware (\<lambda>a s. s\<lparr>appState_notes := Some [nA, nC]\<rparr>) (\<lambda>_. [''c'', ''a''])
            (TRASH_NOTE (Some 1))
            \<lparr>store = \<lparr>appState_notes = Some [nA, nB, nC], dispatched = []\<rparr>,
             posted = [], hasInitialized = True\<rparr>)
    = []"
  using destructive_actions_rebuild [of "TRASH_NOTE (Some 1)" "Some 1"
      "\<lambda>a s. s\<lparr>appState_notes := Some [nA, nC]\<rparr>" "\<lambda>_. [''c'', ''a'']"
      "\<lparr>store = \<lparr>appState_notes = Some [nA, nB, nC], dispatched = []\<rparr>,
        posted = [], hasInitialized = True\<rparr>"]
  by (simp add: nA_def nB_def nC_def)

section \<open>Properties of the row heights\<close>

subsection \<open>Rounding to the nearest double\<close>

lemma ties_to_even_le: "y \<le> of_int k \<Longrightarrow> ties_to_even y \<le> k"
proof -
  assume y: "y \<le> of_int k"
  have fl: "\<lfloor>y\<rfloor> \<le> k" using y by (simp add: floor_le_iff)
  show ?thesis
  proof (cases "\<lfloor>y\<rfloor> = k")
    case True
    then have "y = of_int k" using y of_int_floor_le [of y] by simp
    then show ?thesis by (simp add: ties_to_even_def)
  next
    case False
    with fl have "\<lfloor>y\<rfloor> + 1 \<le> k" by simp
    then show ?thesis by (simp add: ties_to_even_def Let_def)
  qed
qed

lemma ties_to_even_ge: "of_int k \<le> y \<Longrightarrow> k \<le> ties_to_even y"
proof -
  assume "of_int k \<le> y"
  then have "k \<le> \<lfloor>y\<rfloor>" by (simp add: le_floor_iff)
  then show ?thesis by (simp add: ties_to_even_def Let_def)
qed

lemma ties_to_even_below_half: "y < of_int k + 1 / 2 \<Longrightarrow> ties_to_even y \<le> k"
proof -
  assume y: "y < of_int k + 1 / 2"
  then have "y < of_int (k + 1)" by simp
  then have "\<lfloor>y\<rfloor> < k + 1" by (simp only: floor_less_iff)
  then have fl: "\<lfloor>y\<rfloor> \<le> k" by simp
  show ?thesis
  proof (cases "\<lfloor>y\<rfloor> = k")
    case True
    with y have "y - of_int \<lfloor>y\<rfloor> < 1 / 2" by simp
    with True show ?thesis by (simp add: ties_to_even_def Let_def)
  next
    case False
    with fl have "\<lfloor>y\<rfloor> + 1 \<le> k" by simp
    then show ?thesis by (simp add: ties_to_even_def Let_def)
  qed
qed


lemma spacing_pos: "0 < spacing k"
  by (simp add: spacing_def)

lemma spacing_mono: "j \<le> k \<Longrightarrow> spacing j \<le> spacing k"
  by (simp add: spacing_def divide_le_cancel power_increasing)

lemma spacing_Suc: "spacing (Suc k) = 2 * spacing k"
  by (simp add: spacing_def)

lemma spacing_index_range:
  "k \<le> spacing_index a k fuel \<and> spacing_index a k fuel \<le> k + fuel"
proof (induction fuel arbitrary: k)
  case 0
  then show ?case by simp
next
  case (Suc fuel)
  from Suc.IH [of "Suc k"] show ?case by auto
qed

lemma spacing_index_upper:
  "spacing_index a k fuel < k + fuel \<Longrightarrow> a < 2 ^ 53 * spacing (spacing_index a k fuel)"
proof (induction fuel arbitrary: k)
  case 0
  then show ?case by simp
next
  case (Suc fuel)
  show ?case
  proof (cases "a < 2 ^ 53 * spacing k")
    case True
    then show ?thesis by simp
  next
    case False
    with Suc.prems have "spacing_index a (Suc k) fuel < Suc k + fuel" by simp
    from Suc.IH [OF this] False show ?thesis by simp
  qed
qed

lemma spacing_index_lower:
  "k \<le> j \<Longrightarrow> j < spacing_index a k fuel \<Longrightarrow> 2 ^ 53 * spacing j \<le> a"
proof (induction fuel arbitrary: k)
  case 0
  then show ?case by simp
next
  case (Suc fuel)
  show ?case
  proof (cases "a < 2 ^ 53 * spacing k")
    case True
    with Suc.prems show ?thesis by simp
  next
    case False
    show ?thesis
    proof (cases "j = k")
      case True
      with False show ?thesis by (simp add: not_less)
    next
      case neq: False
      with Suc.prems(1) have "Suc k \<le> j" by simp
      moreover from Suc.prems(2) False have "j < spacing_index a (Suc k) fuel" by simp
      ultimately show ?thesis by (rule Suc.IH)
    qed
  qed
qed


lemma spacing_add: "spacing (j + d) = 2 ^ d * spacing j"
  by (simp add: spacing_def power_add)

lemma spacing_top: "spacing 2045 = 2 ^ 971"
proof -
  have "(2::rat) ^ 2045 = 2 ^ 971 * 2 ^ 1074" by (simp add: power_add [symmetric])
  then show ?thesis by (simp add: spacing_def)
qed

lemma pow_shift:
  fixes N a b :: nat
  assumes "b \<le> N"
  shows "(2::rat) ^ a / 2 ^ b = 2 ^ (a + (N - b)) / 2 ^ N"
proof -
  have "(2::rat) ^ N = 2 ^ b * 2 ^ (N - b)"
    using assms by (simp add: power_add [symmetric])
  then show ?thesis by (simp add: power_add)
qed

lemma binary64_spacing:
  assumes "f \<in> binary64"
  obtains m :: int and j :: nat where "f = of_int m * spacing j" and "\<bar>m\<bar> < 2 ^ 53" and "j \<le> 2045"
proof -
  from assms obtain m :: int and a b :: nat where
    f: "f = of_int m * 2 ^ a / 2 ^ b" and m: "\<bar>m\<bar> < 2 ^ 53" and a: "a \<le> 971" and b: "b \<le> 1074"
    unfolding binary64_def by blast
  have "f = of_int m * (2 ^ a / 2 ^ b)"
    unfolding f by (simp only: times_divide_eq_right)
  also have "\<dots> = of_int m * spacing (a + (1074 - b))"
    unfolding spacing_def by (simp only: pow_shift [OF b])
  finally have "f = of_int m * spacing (a + (1074 - b))" .
  moreover have "a + (1074 - b) \<le> 2045" using a by simp
  ultimately show ?thesis using m that by blast
qed

lemma binary64_uminus: "f \<in> binary64 \<Longrightarrow> - f \<in> binary64"
proof -
  assume "f \<in> binary64"
  then obtain m :: int and a b :: nat where
    "f = of_int m * 2 ^ a / 2 ^ b" "\<bar>m\<bar> < 2 ^ 53" "a \<le> 971" "b \<le> 1074"
    unfolding binary64_def by blast
  then have "- f = of_int (- m) * 2 ^ a / 2 ^ b" "\<bar>- m\<bar> < 2 ^ 53" by simp_all
  with \<open>a \<le> 971\<close> \<open>b \<le> 1074\<close> show ?thesis unfolding binary64_def by blast
qed

lemma OVERFLOW_facts:
  "OVERFLOW < 2 ^ 53 * 2 ^ 971" "OVERFLOW = (2 ^ 53 - 1 + 1 / 2) * 2 ^ 971"
  "MAX_VALUE = (2 ^ 53 - 1) * 2 ^ 971" "2 ^ 53 * 2 ^ 970 \<le> MAX_VALUE"
  by (simp_all add: OVERFLOW_def MAX_VALUE_def)


lemma spacing_bottom: "spacing 2044 = 2 ^ 970"
proof -
  have "(2::rat) ^ 2044 = 2 ^ 970 * 2 ^ 1074" by (simp add: power_add [symmetric])
  then show ?thesis by (simp add: spacing_def)
qed

lemma on_grid_above:
  assumes "0 < u" and "a \<le> of_int k * u"
  shows "of_int (ties_to_even (a / u)) * u \<le> of_int k * u"
proof -
  from assms have "a / u \<le> of_int k" by (simp add: divide_le_eq)
  then have "ties_to_even (a / u) \<le> k" by (rule ties_to_even_le)
  then have "(of_int (ties_to_even (a / u)) :: rat) \<le> of_int k" by simp
  with assms(1) show ?thesis by (simp add: mult_right_mono)
qed

lemma on_grid_below:
  assumes "0 < u" and "of_int k * u \<le> a"
  shows "of_int k * u \<le> of_int (ties_to_even (a / u)) * u"
proof -
  from assms have "of_int k \<le> a / u" by (simp add: le_divide_eq)
  then have "k \<le> ties_to_even (a / u)" by (rule ties_to_even_ge)
  then have "(of_int k :: rat) \<le> of_int (ties_to_even (a / u))" by simp
  with assms(1) show ?thesis by (simp add: mult_right_mono)
qed

lemma finer_is_smaller:
  assumes "\<bar>m\<bar> < 2 ^ 53" and "j < K"
  shows "of_int m * spacing j < 2 ^ 53 * spacing (K - 1)"
proof (cases "0 < m")
  case True
  from assms(2) have "spacing j \<le> spacing (K - 1)" by (intro spacing_mono) simp
  with True have "of_int m * spacing j \<le> of_int m * spacing (K - 1)"
    by (simp add: mult_left_mono)
  also have "\<dots> < 2 ^ 53 * spacing (K - 1)"
  proof -
    from assms(1) have "m < 2 ^ 53" by simp
    then have "(of_int m :: rat) < of_int (2 ^ 53)" by (simp only: of_int_less_iff)
    then have "(of_int m :: rat) < 2 ^ 53" by simp
    then show ?thesis using spacing_pos [of "K - 1"] by (simp add: mult_strict_right_mono)
  qed
  finally show ?thesis .
next
  case False
  then have "(of_int m :: rat) \<le> 0" by simp
  then have "of_int m * spacing j \<le> 0"
    using spacing_pos [of j] by (simp add: mult_le_0_iff)
  also have "0 < 2 ^ 53 * spacing (K - 1)" using spacing_pos [of "K - 1"] by simp
  finally show ?thesis .
qed

lemma round_magnitude_between:
  assumes "f \<in> binary64"
  shows "(a \<le> f \<longrightarrow> round_magnitude a \<le> f) \<and> (f \<le> a \<longrightarrow> f \<le> round_magnitude a)"
proof -
  define K where "K = spacing_index a 0 2045"
  define u where "u = spacing K"
  have r: "round_magnitude a = of_int (ties_to_even (a / u)) * u"
    by (simp add: round_magnitude_def K_def u_def Let_def)
  have u0: "0 < u" by (simp add: u_def spacing_pos)
  from assms obtain m :: int and j :: nat where
    f: "f = of_int m * spacing j" and m: "\<bar>m\<bar> < 2 ^ 53"
    by (rule binary64_spacing)
  show ?thesis
  proof (cases "K \<le> j")
    case True
    then have "spacing j = 2 ^ (j - K) * spacing K"
      using spacing_add [of K "j - K"] by simp
    then have fk: "f = of_int (m * 2 ^ (j - K)) * u"
      by (simp add: f u_def)
    show ?thesis
      unfolding r fk using on_grid_above [OF u0] on_grid_below [OF u0] by blast
  next
    case False
    then have jK: "j < K" by simp
    then have K0: "0 < K" by simp
    from finer_is_smaller [OF m jK] have fs: "f < 2 ^ 53 * spacing (K - 1)" by (simp add: f)
    have "2 ^ 53 * spacing (K - 1) \<le> a"
      using spacing_index_lower [of 0 "K - 1" a 2045] K0 by (simp add: K_def)
    moreover have su: "2 ^ 53 * spacing (K - 1) = of_int (2 ^ 52) * u"
      using spacing_Suc [of "K - 1"] K0 by (simp add: u_def)
    ultimately have "of_int (2 ^ 52) * u \<le> a" by simp
    from on_grid_below [OF u0 this] have "of_int (2 ^ 52) * u \<le> round_magnitude a"
      by (simp only: r)
    with fs su \<open>2 ^ 53 * spacing (K - 1) \<le> a\<close> show ?thesis by auto
  qed
qed

lemma round_magnitude_range:
  assumes "0 \<le> a" and "a < OVERFLOW"
  shows "0 \<le> round_magnitude a" and "round_magnitude a \<le> MAX_VALUE"
proof -
  define K where "K = spacing_index a 0 2045"
  define u where "u = spacing K"
  have r: "round_magnitude a = of_int (ties_to_even (a / u)) * u"
    by (simp add: round_magnitude_def K_def u_def Let_def)
  have u0: "0 < u" by (simp add: u_def spacing_pos)
  have "of_int 0 * u \<le> a" using assms(1) by simp
  from on_grid_below [OF u0 this] show "0 \<le> round_magnitude a" by (simp add: r)
  have K: "K \<le> 2045" using spacing_index_range [of 0 a 2045] by (simp add: K_def)
  show "round_magnitude a \<le> MAX_VALUE"
  proof (cases "K = 2045")
    case True
    then have u: "u = 2 ^ 971" by (simp add: u_def spacing_top)
    from assms(2) have "a < (2 ^ 53 - 1 + 1 / 2) * u"
      by (simp only: OVERFLOW_facts(2) u)
    then have "a / u < of_int (2 ^ 53 - 1) + 1 / 2"
      using u0 by (simp add: divide_less_eq)
    then have "ties_to_even (a / u) \<le> 2 ^ 53 - 1" by (rule ties_to_even_below_half)
    then have "(of_int (ties_to_even (a / u)) :: rat) \<le> of_int (2 ^ 53 - 1)"
      by (simp only: of_int_le_iff)
    then have "of_int (ties_to_even (a / u)) * u \<le> of_int (2 ^ 53 - 1) * u"
      using u0 by (simp add: mult_right_mono)
    also have "\<dots> = MAX_VALUE" by (simp only: OVERFLOW_facts(3) u) simp
    finally show ?thesis by (simp only: r)
  next
    case False
    with K have K': "K < 0 + 2045" "K \<le> 2044" by simp_all
    from spacing_index_upper [of a 0 2045] K'(1) have "a < 2 ^ 53 * u"
      by (simp add: K_def u_def)
    then have "a \<le> of_int (2 ^ 53) * u" by simp
    from on_grid_above [OF u0 this] have "round_magnitude a \<le> of_int (2 ^ 53) * u"
      by (simp only: r)
    also have "\<dots> \<le> 2 ^ 53 * spacing 2044"
      using spacing_mono [OF K'(2)] by (simp add: u_def)
    also have "\<dots> \<le> MAX_VALUE"
      by (simp only: spacing_bottom OVERFLOW_facts(4))
    finally show ?thesis .
  qed
qed


lemma binary64_round_finite:
  assumes "\<bar>x\<bar> < OVERFLOW"
  shows "\<exists>r. binary64_round x = Num r \<and> \<bar>r\<bar> \<le> MAX_VALUE
      \<and> (\<forall>f \<in> binary64. (x \<le> f \<longrightarrow> r \<le> f) \<and> (f \<le> x \<longrightarrow> f \<le> r))"
proof (cases "0 \<le> x")
  case True
  with assms have xO: "x < OVERFLOW" by simp
  with True assms have "binary64_round x = Num (round_magnitude x)"
    by (simp add: binary64_round_def abs_less_iff not_le)
  moreover from round_magnitude_range [OF True xO]
  have "\<bar>round_magnitude x\<bar> \<le> MAX_VALUE" by simp
  ultimately show ?thesis using round_magnitude_between [of _ x] by blast
next
  case False
  then have nx: "0 \<le> - x" by simp
  from assms False have nxO: "- x < OVERFLOW" by simp
  from False assms have "binary64_round x = Num (- round_magnitude (- x))"
    by (simp add: binary64_round_def abs_less_iff not_le)
  moreover from round_magnitude_range [OF nx nxO]
  have "\<bar>- round_magnitude (- x)\<bar> \<le> MAX_VALUE" by simp
  moreover have "\<forall>f \<in> binary64. (x \<le> f \<longrightarrow> - round_magnitude (- x) \<le> f)
      \<and> (f \<le> x \<longrightarrow> f \<le> - round_magnitude (- x))"
  proof
    fix f assume "f \<in> binary64"
    then have "- f \<in> binary64" by (rule binary64_uminus)
    from round_magnitude_between [OF this, of "- x"]
    show "(x \<le> f \<longrightarrow> - round_magnitude (- x) \<le> f)
      \<and> (f \<le> x \<longrightarrow> f \<le> - round_magnitude (- x))"
      by (simp add: neg_le_iff_le minus_le_iff le_minus_iff)
  qed
  ultimately show ?thesis by blast
qed

lemma binary64_round_correct:
  assumes "\<bar>x\<bar> < OVERFLOW"
  obtains r where "binary64_round x = Num r" and "\<bar>r\<bar> \<le> MAX_VALUE"
    and "\<And>f. f \<in> binary64 \<Longrightarrow> x \<le> f \<Longrightarrow> r \<le> f"
    and "\<And>f. f \<in> binary64 \<Longrightarrow> f \<le> x \<Longrightarrow> f \<le> r"
  using binary64_round_finite [OF assms] by blast

subsection \<open>Rounding at a width just below zero\<close>

lemma ties_to_even_near:
  assumes "of_int k \<le> y" and "y < of_int k + 1 / 2"
  shows "ties_to_even y = k"
  using ties_to_even_ge [OF assms(1)] ties_to_even_below_half [OF assms(2)] by simp

lemma spacing_index_eq:
  assumes "K \<le> 2045" and "a < 2 ^ 53 * spacing K"
    and "\<And>j. j < K \<Longrightarrow> 2 ^ 53 * spacing j \<le> a"
  shows "spacing_index a 0 2045 = K"
proof (rule ccontr)
  assume ne: "spacing_index a 0 2045 \<noteq> K"
  show False
  proof (cases "spacing_index a 0 2045 < K")
    case True
    with assms(1) have "spacing_index a 0 2045 < 0 + 2045" by simp
    from spacing_index_upper [OF this] assms(3) [OF True] show False by simp
  next
    case False
    with ne have "K < spacing_index a 0 2045" by simp
    from spacing_index_lower [OF _ this] assms(2) show False by simp
  qed
qed

lemma pow_split:
  fixes N k :: nat
  assumes "k \<le> N"
  shows "(2::rat) ^ k / 2 ^ N = 1 / 2 ^ (N - k)"
proof -
  have "(2::rat) ^ N = 2 ^ k * 2 ^ (N - k)"
    using assms by (simp add: power_add [symmetric])
  then show ?thesis by simp
qed

lemma spacing_small: "k \<le> 1074 \<Longrightarrow> spacing k = 1 / 2 ^ (1074 - k)"
  unfolding spacing_def by (rule pow_split)

lemma round_magnitude_example: "round_magnitude (24 + 1 / 2 ^ 67) = 24"
proof -
  let ?a = "24 + 1 / 2 ^ 67 :: rat"
  have u: "spacing 1026 = 1 / 2 ^ 48" using spacing_small [of 1026] by simp
  have below: "\<And>j. j < 1026 \<Longrightarrow> 2 ^ 53 * spacing j \<le> ?a"
  proof -
    fix j :: nat assume "j < 1026"
    then have "spacing j \<le> spacing 1025" by (intro spacing_mono) simp
    moreover have "spacing 1025 = 1 / 2 ^ 49" using spacing_small [of 1025] by simp
    ultimately have "2 ^ 53 * spacing j \<le> 2 ^ 53 * (1 / 2 ^ 49)" by simp
    also have "\<dots> \<le> ?a" by simp
    finally show "2 ^ 53 * spacing j \<le> ?a" .
  qed
  have "?a < 2 ^ 53 * spacing 1026" by (simp add: u)
  with below have K: "spacing_index ?a 0 2045 = 1026"
    by (intro spacing_index_eq) simp_all
  have t: "ties_to_even (?a / (1 / 2 ^ 48)) = 24 * 2 ^ 48"
    by (rule ties_to_even_near) simp_all
  have "round_magnitude ?a = of_int (ties_to_even (?a / (1 / 2 ^ 48))) * (1 / 2 ^ 48)"
    by (simp only: round_magnitude_def Let_def K u)
  also have "\<dots> = of_int (24 * 2 ^ 48) * (1 / 2 ^ 48)" by (simp only: t)
  also have "\<dots> = 24" by simp
  finally show ?thesis .
qed

lemma binary64_round_example: "binary64_round (- (1 / 2 ^ 67) - 24) = Num (- 24)"
proof -
  have "\<not> OVERFLOW \<le> - (1 / 2 ^ 67) - 24" "\<not> - (1 / 2 ^ 67) - 24 \<le> - OVERFLOW"
    by (simp_all add: OVERFLOW_def)
  then show ?thesis
    using round_magnitude_example by (simp add: binary64_round_def add.commute)
qed

subsection \<open>The range of the format\<close>

lemma MAX_VALUE_factored: "MAX_VALUE = (2 ^ 53 - 1) * 2 ^ 971"
  by (simp add: MAX_VALUE_def)

lemma MAX_VALUE_below_OVERFLOW: "MAX_VALUE + 24 < OVERFLOW"
  by (simp add: MAX_VALUE_def OVERFLOW_def)


lemma scaled_bound:
  fixes x pa pb P A :: rat
  assumes "\<bar>x\<bar> \<le> P" and "0 \<le> pa" and "pa \<le> A" and "1 \<le> pb"
  shows "\<bar>x * pa / pb\<bar> \<le> P * A"
proof -
  have P: "0 \<le> P" using assms(1) by simp
  have "\<bar>x * pa / pb\<bar> = \<bar>x\<bar> * pa / pb"
    using assms(2,4) by (simp add: abs_mult)
  also have "\<dots> \<le> \<bar>x\<bar> * pa"
  proof -
    have "\<bar>x\<bar> * pa * 1 \<le> \<bar>x\<bar> * pa * pb"
      using assms(2,4) by (intro mult_left_mono) simp_all
    then show ?thesis using assms(4) by (simp add: divide_le_eq)
  qed
  also have "\<dots> \<le> P * A"
    using assms(1,2,3) P by (intro mult_mono) simp_all
  finally show ?thesis .
qed

lemma binary64_bounded:
  assumes "f \<in> binary64"
  shows "\<bar>f\<bar> \<le> MAX_VALUE"
proof -
  from assms obtain m :: int and a b :: nat where
    f: "f = of_int m * 2 ^ a / 2 ^ b" and m: "\<bar>m\<bar> < 2 ^ 53" and a: "a \<le> 971"
    unfolding binary64_def by blast
  from m have "\<bar>m\<bar> \<le> 2 ^ 53 - 1" by simp
  then have "(of_int \<bar>m\<bar> :: rat) \<le> of_int (2 ^ 53 - 1)"
    by (simp only: of_int_le_iff)
  then have m': "\<bar>of_int m :: rat\<bar> \<le> 2 ^ 53 - 1" by simp
  have pa: "(2::rat) ^ a \<le> 2 ^ 971"
    using a by (intro power_increasing) simp_all
  have "\<bar>of_int m * 2 ^ a / 2 ^ b :: rat\<bar> \<le> (2 ^ 53 - 1) * 2 ^ 971"
    using m' _ pa by (rule scaled_bound) simp_all
  then show ?thesis
    unfolding f MAX_VALUE_factored .
qed


lemma MAX_VALUE_nonneg: "0 \<le> MAX_VALUE"
  by (simp add: MAX_VALUE_def)

lemma binary64_of_int:
  assumes "\<bar>k\<bar> < 2 ^ 53"
  shows "of_int k \<in> binary64"
proof -
  have "(of_int k :: rat) = of_int k * 2 ^ 0 / 2 ^ 0" by simp
  with assms show ?thesis unfolding binary64_def by blast
qed

lemma binary64_small: "0 \<in> binary64" "- 24 \<in> binary64" "42 \<in> binary64"
  using binary64_of_int [of 0] binary64_of_int [of "- 24"] binary64_of_int [of 42]
  by simp_all

lemma binary64_LINES_BOUND: "- LINES_BOUND \<in> binary64"
proof -
  have "- LINES_BOUND = of_int (- (3 * 2 ^ 47)) * 2 ^ 971 / 2 ^ 0"
    by (simp add: LINES_BOUND_def)
  moreover have "\<bar>- (3 * 2 ^ 47) :: int\<bar> < 2 ^ 53" by simp
  ultimately show ?thesis unfolding binary64_def by blast
qed

lemma LINES_BOUND_facts: "MAX_VALUE \<le> 24 * LINES_BOUND" "21 * LINES_BOUND < OVERFLOW"
  by (simp_all add: MAX_VALUE_def OVERFLOW_def LINES_BOUND_def)

lemma binary64_round_exact:
  assumes "x \<in> binary64"
  shows "binary64_round x = Num x"
proof -
  from binary64_bounded [OF assms] MAX_VALUE_below_OVERFLOW have "\<bar>x\<bar> < OVERFLOW" by simp
  from binary64_round_correct [OF this] obtain r where
    "binary64_round x = Num r" and "r \<le> x" and "x \<le> r"
    using assms by (metis order_refl)
  then show ?thesis by simp
qed

lemma binary64_round_of_int:
  assumes "\<bar>k\<bar> < 2 ^ 53"
  shows "binary64_round (of_int k) = Num (of_int k)"
  using binary64_of_int [OF assms] by (rule binary64_round_exact)

lemma format_margins:
  "24 + MAX_VALUE < OVERFLOW" "MAX_VALUE < OVERFLOW" "42 < OVERFLOW"
  "0 < LINES_BOUND" "LINES_BOUND < OVERFLOW"
  by (simp_all add: MAX_VALUE_def OVERFLOW_def LINES_BOUND_def)

subsection \<open>Heights at a width that is not positive\<close>

lemma maxPreviewLines_nonneg: "0 \<le> maxPreviewLines m"
  by (cases m) simp_all

lemma quotient_bounds:
  fixes tw d :: rat
  assumes "0 \<le> tw" and "tw \<le> MAX_VALUE" and "d \<le> - 24"
  shows "tw / d \<le> 0" and "- LINES_BOUND \<le> tw / d"
proof -
  have d: "d < 0" using assms(3) by simp
  show "tw / d \<le> 0" using assms(1) d by (simp add: divide_nonneg_neg)
  have "24 * LINES_BOUND \<le> (- d) * LINES_BOUND"
    using assms(3) format_margins(4) by (intro mult_right_mono) simp_all
  with assms(2) LINES_BOUND_facts(1) have "tw \<le> - LINES_BOUND * d"
    by (simp add: mult.commute)
  then show "- LINES_BOUND \<le> tw / d"
    using d by (simp add: neg_le_divide_eq)
qed

text \<open>
  The height at the width \<open>-2 ^ -67\<close> and a text of 24 pixels shows the rounding at
  work: \<open>width - 24\<close> rounds to \<open>-24\<close>, the quotient is \<open>-1\<close>, and the height in
  comfy mode is \<open>42 - 21 = 21\<close>; it is the third instance of the witness below.
\<close>

text \<open>
  C2, amended. For every width \<open>\<le> 0\<close>, every preview whose measured width is a
  double that is not negative, and every display mode, the height is a finite number
  and the division cannot fault: the divisor \<open>width - 24\<close>, as rounded, is at most
  \<open>-24\<close>. In condensed mode the height is the base height and nothing is measured.
  In the other modes the line count is the ceiling of the rounded quotient and is never
  positive, since nothing guards the negative divisor; the height, got from it by
  a rounded product and a rounded sum, is at most the base height.
\<close>

theorem computeRowHeight_nonpositive_width:
  assumes "w \<in> binary64" and "w \<le> 0"
    and "measureText preview (js_minus w 24) \<in> binary64"
    and "0 \<le> measureText preview (js_minus w 24)"
  shows "(mode = Condensed \<longrightarrow>
            computeRowHeight measureText w mode preview m = (Num ROW_HEIGHT_BASE, m))
       \<and> (mode \<noteq> Condensed \<longrightarrow>
            (\<exists>d q p h.
                js_minus w 24 = Num d \<and> d \<le> - 24
              \<and> binary64_round (measureText preview (Num d) / d) = Num q \<and> \<lceil>q\<rceil> \<le> 0
              \<and> binary64_round (ROW_HEIGHT_LINE * of_int \<lceil>q\<rceil>) = Num p
              \<and> binary64_round (ROW_HEIGHT_BASE + p) = Num h \<and> h \<le> ROW_HEIGHT_BASE
              \<and> computeRowHeight measureText w mode preview m = (Num h, Suc m)))"
proof -
  have base: "ROW_HEIGHT_BASE = 42" by (simp add: ROW_HEIGHT_BASE_def)
  have line: "ROW_HEIGHT_LINE = 21" by (simp add: ROW_HEIGHT_LINE_def)
  from binary64_bounded [OF assms(1)] assms(2) format_margins(1)
  have "\<bar>w - 24\<bar> < OVERFLOW" by (simp add: abs_less_iff abs_le_iff)
  from binary64_round_correct [OF this] obtain d where
    d: "binary64_round (w - 24) = Num d" and d24: "d \<le> - 24"
    using binary64_small(2) assms(2) by (metis add.commute add_le_same_cancel2 uminus_add_conv_diff)
  let ?tw = "measureText preview (Num d)"
  have tw: "?tw \<in> binary64" "0 \<le> ?tw"
    using assms(3,4) d by (simp_all add: js_minus_def)
  from binary64_bounded [OF tw(1)] have twM: "?tw \<le> MAX_VALUE" by (simp add: abs_le_iff)
  note qb = quotient_bounds [OF tw(2) twM d24]
  from qb format_margins(4,5) have "\<bar>?tw / d\<bar> < OVERFLOW" by (simp add: abs_less_iff)
  from binary64_round_correct [OF this] obtain q where
    q: "binary64_round (?tw / d) = Num q" and q0: "q \<le> 0" and qB: "- LINES_BOUND \<le> q"
    using binary64_small(1) binary64_LINES_BOUND qb by metis
  have l0: "\<lceil>q\<rceil> \<le> 0" using q0 by (simp add: ceiling_le_iff)
  then have l0': "(of_int \<lceil>q\<rceil> :: rat) \<le> 0" by simp
  have lB: "- LINES_BOUND \<le> (of_int \<lceil>q\<rceil> :: rat)"
    using qB le_of_int_ceiling [of q] by (rule order_trans)
  from l0' lB LINES_BOUND_facts(2) have "\<bar>21 * (of_int \<lceil>q\<rceil> :: rat)\<bar> < OVERFLOW"
    by (simp add: abs_less_iff)
  from binary64_round_correct [OF this] obtain p where
    p: "binary64_round (21 * of_int \<lceil>q\<rceil>) = Num p" and p0: "p \<le> 0" and pM: "\<bar>p\<bar> \<le> MAX_VALUE"
    using binary64_small(1) l0' by (metis mult_le_0_iff zero_le_numeral)
  from p0 pM format_margins(2,3) have "\<bar>42 + p\<bar> < OVERFLOW"
    by (simp add: abs_less_iff abs_le_iff)
  from binary64_round_correct [OF this] obtain h where
    h: "binary64_round (42 + p) = Num h" and h42: "h \<le> 42"
    using binary64_small(3) p0 by (metis add_le_same_cancel1)
  have m: "min (maxPreviewLines mode) (of_int \<lceil>q\<rceil>) = of_int \<lceil>q\<rceil>"
    using order_trans [OF l0' maxPreviewLines_nonneg [of mode]] by (rule min_absorb2)
  have d_ne: "d \<noteq> 0" using d24 by auto
  have "mode \<noteq> Condensed \<Longrightarrow>
      computeRowHeight measureText w mode preview m = (Num h, Suc m)"
    using d q p h m d_ne
    by (simp add: computeRowHeight_def getTextWidth_def js_minus_def base line)
  moreover have "mode = Condensed \<Longrightarrow>
      computeRowHeight measureText w mode preview m = (Num ROW_HEIGHT_BASE, m)"
    by (simp add: computeRowHeight_def)
  ultimately show ?thesis
    using d d24 q l0 p h h42 by (auto simp add: js_minus_def base line)
qed


text \<open>
  C2, as the claim states it, fails: nothing in \<open>computeRowHeight\<close> guards the divisor
  \<open>width - 24\<close>, and the height can be negative. At width 0, in expanded mode, a
  preview of 15 characters measured at 120 pixels gives \<open>Math.ceil(120 / -24) = -5\<close>
  lines, \<open>Math.min(4, -5) = -5\<close>, and the height \<open>42 + 21 * -5 = -63\<close>. Every
  intermediate value is an integer, which the format holds exactly.
\<close>

theorem computeRowHeight_negative_counterexample:
  "computeRowHeight sample_measureText 0 Expanded ''preview of note'' 0 = (Num (- 63), 1)"
proof -
  have e: "binary64_round (- 24) = Num (- 24)" "binary64_round (- 5) = Num (- 5)"
       "binary64_round (- 105) = Num (- 105)" "binary64_round (- 63) = Num (- 63)"
    using binary64_round_of_int [of "- 24"] binary64_round_of_int [of "- 5"]
          binary64_round_of_int [of "- 105"] binary64_round_of_int [of "- 63"]
    by simp_all
  show ?thesis
    by (simp add: computeRowHeight_def getTextWidth_def js_minus_def sample_measureText_def
          ROW_HEIGHT_BASE_def ROW_HEIGHT_LINE_def e)
qed

theorem computeRowHeight_nonpositive_width_witness:
  "computeRowHeight sample_measureText (- 8) Comfy ''abcd'' 0 = (Num 21, 1)
   \<and> computeRowHeight sample_measureText (- 8) Condensed ''abcd'' 0 = (Num 42, 0)
   \<and> computeRowHeight sample_measureText (- (1 / 2 ^ 67)) Comfy ''abc'' 0 = (Num 21, 1)"
proof -
  have w: "(- 8 :: rat) \<in> binary64" using binary64_of_int [of "- 8"] by simp
  have w0: "(- 8 :: rat) \<le> 0" by simp
  have t: "sample_measureText ''abcd'' (js_minus (- 8) 24) \<in> binary64"
    using binary64_of_int [of 32] by (simp add: sample_measureText_def)
  have t0: "0 \<le> sample_measureText ''abcd'' (js_minus (- 8) 24)"
    by (simp add: sample_measureText_def)
  have e: "binary64_round (- 32) = Num (- 32)" "binary64_round (- 1) = Num (- 1)"
       "binary64_round (- 21) = Num (- 21)" "binary64_round 21 = Num 21"
    using binary64_round_of_int [of "- 32"] binary64_round_of_int [of "- 1"]
          binary64_round_of_int [of "- 21"] binary64_round_of_int [of 21]
    by simp_all
  note claim = computeRowHeight_nonpositive_width
      [where w = "- 8" and measureText = sample_measureText and preview = "''abcd''" and m = 0,
       OF w w0 t t0]
  from claim [where mode = Comfy] obtain h where
    "computeRowHeight sample_measureText (- 8) Comfy ''abcd'' 0 = (Num h, Suc 0)"
    and "binary64_round (ROW_HEIGHT_BASE + - 21) = Num h"
    by (auto simp add: js_minus_def sample_measureText_def e ROW_HEIGHT_LINE_def)
  then have comfy: "computeRowHeight sample_measureText (- 8) Comfy ''abcd'' 0 = (Num 21, 1)"
    by (simp add: ROW_HEIGHT_BASE_def e)
  from claim [where mode = Condensed]
  have condensed: "computeRowHeight sample_measureText (- 8) Condensed ''abcd'' 0 = (Num 42, 0)"
    by (simp add: ROW_HEIGHT_BASE_def)
  have d: "js_minus (- (1 / 2 ^ 67)) 24 = Num (- 24)"
    by (simp only: js_minus_def binary64_round_example)
  have near: "computeRowHeight sample_measureText (- (1 / 2 ^ 67)) Comfy ''abc'' 0 = (Num 21, 1)"
    using d
    by (simp add: computeRowHeight_def getTextWidth_def sample_measureText_def
          ROW_HEIGHT_BASE_def ROW_HEIGHT_LINE_def e)
  from comfy condensed near show ?thesis by simp
qed

subsection \<open>The cache\<close>

lemma rowHeightCache_again:
  assumes "rowHeightCache f gp rows props i (cache0, s0) = Inr (h, cache1, s1)"
  shows "rowHeightCache f gp rows props i (cache1, s1) = Inr (h, cache1, s1)"
  using assms
  by (auto simp add: rowHeightCache_def Let_def
           split: option.splits ListItem.splits prod.splits if_splits)

lemma rowHeightCache_in_range:
  assumes "0 \<le> i" and "i < int (length rows)"
  shows "\<exists>h cache1 s1. rowHeightCache f gp rows props i (cache0, s0) = Inr (h, cache1, s1)"
  using assms
  by (auto simp add: rowHeightCache_def Let_def nth_opt_def
           split: option.splits ListItem.splits prod.splits if_splits)

lemma rowHeightCache_entry:
  assumes "rowHeightCache f gp rows props i (cache0, s0) = Inr (h, cache1, s1)"
    and "nth_opt rows i = Some (Note n)"
  shows "cache1 (id_of n) = Some (width props, noteDisplay props, snd (gp n), h)"
  using assms
  by (auto simp add: rowHeightCache_def Let_def split: option.splits prod.splits if_splits)

lemma rowHeightCache_hit:
  assumes "rowHeightCache f gp rows props i (cache0, s0) = Inr (h, cache1, s1)"
    and "nth_opt rows i = Some (Note n)"
    and "cache0 (id_of n) = Some (width props, noteDisplay props, snd (gp n), c)"
  shows "h = c \<and> cache1 = cache0 \<and> s1 = s0"
  using assms
  by (auto simp add: rowHeightCache_def Let_def split: option.splits prod.splits if_splits)

lemma rowHeightCache_miss:
  assumes "rowHeightCache f gp rows props i (cache0, s0) = Inr (h, cache1, s1)"
    and "nth_opt rows i = Some (Note n)"
    and "\<forall>c. cache0 (id_of n) \<noteq> Some (width props, noteDisplay props, snd (gp n), c)"
  shows "f (width props) (noteDisplay props) (snd (gp n)) s0 = (h, s1)"
  using assms
  by (auto simp add: rowHeightCache_def Let_def split: option.splits prod.splits if_splits)

lemma getRowHeight_measured:
  assumes "getRowHeight mt gp rows props i (cache0, m0) = Inr (h, cache1, m1)"
  shows "m0 \<le> m1 \<and> m1 \<le> Suc m0"
  using assms
  by (auto simp add: getRowHeight_def rowHeightCache_def Let_def computeRowHeight_def
                     getTextWidth_def
           split: option.splits ListItem.splits prod.splits if_splits)

text \<open>
  C8. For every row of the list, every width and every display mode, two calls of the
  height function in succession with the same inputs return the same height, and the
  second call leaves the cache and the count of text measurements as the first call
  left them; over both calls the text is measured at most once. The second call is a
  hit because, after the first, the entry stored under the record's id holds exactly
  the width, the display mode and the preview of the call, with the height returned.
  The first call itself returns a cached height only from an entry whose width, mode
  and preview equal its inputs, measuring nothing; from any other cache it computes
  the height afresh, so a stale entry is never returned.
\<close>

theorem getRowHeight_idempotent:
  assumes "0 \<le> i" and "i < int (length rows)"
  shows "\<exists>h cache1 m1.
           getRowHeight mt gp rows props i (cache0, m0) = Inr (h, cache1, m1)
         \<and> getRowHeight mt gp rows props i (cache1, m1) = Inr (h, cache1, m1)
         \<and> m1 \<le> Suc m0
         \<and> (\<forall>n. nth_opt rows i = Some (Note n) \<longrightarrow>
               cache1 (id_of n) = Some (width props, noteDisplay props, snd (gp n), h)
             \<and> (\<forall>c. cache0 (id_of n) = Some (width props, noteDisplay props, snd (gp n), c) \<longrightarrow>
                   h = c \<and> m1 = m0)
             \<and> ((\<forall>c. cache0 (id_of n) \<noteq> Some (width props, noteDisplay props, snd (gp n), c)) \<longrightarrow>
                   computeRowHeight mt (width props) (noteDisplay props) (snd (gp n)) m0
                     = (h, m1)))"
proof -
  obtain h cache1 m1 where
    first: "rowHeightCache (computeRowHeight mt) gp rows props i (cache0, m0)
              = Inr (h, cache1, m1)"
    using rowHeightCache_in_range [OF assms, of "computeRowHeight mt" gp props cache0 m0]
    by blast
  have second: "rowHeightCache (computeRowHeight mt) gp rows props i (cache1, m1)
                  = Inr (h, cache1, m1)"
    using first by (rule rowHeightCache_again)
  have "m1 \<le> Suc m0"
    using getRowHeight_measured [of mt gp rows props i cache0 m0 h cache1 m1] first
    by (simp add: getRowHeight_def)
  with first second rowHeightCache_entry [OF first] rowHeightCache_hit [OF first]
    rowHeightCache_miss [OF first]
  show ?thesis
    unfolding getRowHeight_def by blast
qed

theorem getRowHeight_idempotent_witness:
  "getRowHeight sample_measureText sample_titleAndPreview [NotesHeader, Note nA]
      \<lparr>noteDisplay = Expanded, tagResultsFound = 0, width = 80\<rparr> 1
      ([''a'' \<mapsto> (999, Comfy, ''old preview'', Num 7)], 0)
     = Inr (Num 63, [''a'' \<mapsto> (80, Expanded, ''cat one'', Num 63)], 1)
   \<and> getRowHeight sample_measureText sample_titleAndPreview [NotesHeader, Note nA]
      \<lparr>noteDisplay = Expanded, tagResultsFound = 0, width = 80\<rparr> 1
      ([''a'' \<mapsto> (80, Expanded, ''cat one'', Num 63)], 1)
     = Inr (Num 63, [''a'' \<mapsto> (80, Expanded, ''cat one'', Num 63)], 1)"
proof -
  let ?call = "getRowHeight sample_measureText sample_titleAndPreview
      [NotesHeader, Note nA] \<lparr>noteDisplay = Expanded, tagResultsFound = 0, width = 80\<rparr> 1"
  let ?stale = "[''a'' \<mapsto> (999 :: rat, Comfy, ''old preview'', Num 7)]"
  have e: "binary64_round 56 = Num 56" "binary64_round 1 = Num 1"
       "binary64_round 21 = Num 21" "binary64_round 63 = Num 63"
    using binary64_round_of_int [of 56] binary64_round_of_int [of 1]
          binary64_round_of_int [of 21] binary64_round_of_int [of 63]
    by simp_all
  have first: "?call (?stale, 0) = Inr (Num 63, [''a'' \<mapsto> (80, Expanded, ''cat one'', Num 63)], 1)"
    by (simp add: getRowHeight_def rowHeightCache_def nth_opt_def computeRowHeight_def
          getTextWidth_def js_minus_def sample_measureText_def sample_titleAndPreview_def
          nA_def ROW_HEIGHT_BASE_def ROW_HEIGHT_LINE_def e)
  obtain h cache1 m1 where
    "?call (?stale, 0) = Inr (h, cache1, m1)" and "?call (cache1, m1) = Inr (h, cache1, m1)"
    using getRowHeight_idempotent [of 1 "[NotesHeader, Note nA]"
        sample_measureText sample_titleAndPreview
        "\<lparr>noteDisplay = Expanded, tagResultsFound = 0, width = 80\<rparr>" ?stale 0]
    by auto
  with first show ?thesis by simp
qed

section \<open>Properties of the selection\<close>

subsection \<open>Array reads and searches\<close>

lemma nth_opt_negative: "i < 0 \<Longrightarrow> nth_opt xs i = None"
  by (simp add: nth_opt_def)

lemma nth_opt_beyond: "int (length xs) \<le> i \<Longrightarrow> nth_opt xs i = None"
  by (simp add: nth_opt_def)

lemma nth_opt_in_set: "nth_opt xs i = Some x \<Longrightarrow> x \<in> set xs"
  by (auto simp add: nth_opt_def split: if_splits)

lemma findIndex_from_none:
  "(\<forall>x \<in> set xs. \<not> p x) \<Longrightarrow> findIndex_from p xs k = - 1"
  by (induction xs arbitrary: k) simp_all

lemma findIndex_from_some:
  assumes "\<exists>x \<in> set xs. p x"
  shows "\<exists>i < length xs. findIndex_from p xs k = k + int i \<and> p (xs ! i) \<and> (\<forall>j < i. \<not> p (xs ! j))"
  using assms
proof (induction xs arbitrary: k)
  case Nil
  then show ?case by simp
next
  case (Cons x xs)
  show ?case
  proof (cases "p x")
    case True
    then show ?thesis by (intro exI [of _ 0]) simp
  next
    case False
    with Cons.prems have "\<exists>y \<in> set xs. p y" by simp
    from Cons.IH [OF this, of "k + 1"] obtain i where
      i: "i < length xs" "findIndex_from p xs (k + 1) = k + 1 + int i" "p (xs ! i)"
         "\<forall>j < i. \<not> p (xs ! j)"
      by blast
    have "\<forall>j < Suc i. \<not> p ((x # xs) ! j)"
      using False i(4) by (simp add: nth_Cons split: nat.splits)
    with i False show ?thesis
      by (intro exI [of _ "Suc i"]) simp
  qed
qed

lemma findIndex_none: "(\<forall>x \<in> set xs. \<not> p x) \<Longrightarrow> findIndex p xs = - 1"
  by (simp add: findIndex_def findIndex_from_none)

lemma findIndex_some:
  "\<exists>x \<in> set xs. p x \<Longrightarrow>
   \<exists>i < length xs. findIndex p xs = int i \<and> p (xs ! i) \<and> (\<forall>j < i. \<not> p (xs ! j))"
  using findIndex_from_some [of xs p 0] by (simp add: findIndex_def)

lemma findIndex_negative: "findIndex p xs > - 1 \<or> (\<forall>x \<in> set xs. \<not> p x)"
proof (cases "\<exists>x \<in> set xs. p x")
  case True
  from findIndex_some [OF this] show ?thesis by auto
next
  case False
  then show ?thesis by simp
qed

lemma same_id_Some: "same_id (Some a) (Some b) = (id_of a = id_of b)"
  by (simp add: same_id_def)

subsection \<open>Keyboard navigation\<close>

lemma getHighlightedIndex_None:
  assumes "getHighlightedIndex state props = None"
  shows "\<forall>n \<in> set (notes_prop props). \<not> truthy_id (id_of n)"
proof (cases "notes_prop props = []")
  case True
  then show ?thesis by simp
next
  case False
  show ?thesis
  proof (cases "selectedNote props = None \<and> falsy (index state)")
    case True
    with assms False
    have "\<not> findIndex (\<lambda>item. truthy_id (id_of item)) (notes_prop props) > - 1"
      by (simp add: getHighlightedIndex_def Let_def split: if_splits)
    with findIndex_negative [of "\<lambda>item. truthy_id (id_of item)" "notes_prop props"]
    show ?thesis by simp
  next
    case other: False
    show ?thesis
    proof (cases "selectedNote props")
      case None
      with other have nf: "\<not> falsy (index state)" by simp
      then have "index state \<noteq> None" by (simp add: falsy_def)
      with assms False None nf show ?thesis
        by (simp add: getHighlightedIndex_def Let_def same_id_def split: if_splits)
    next
      case (Some sel)
      have "same_id (Some sel) (at_index (notes_prop props) (index state)) \<Longrightarrow> index state \<noteq> None"
        by (auto simp add: same_id_def at_index_def split: option.splits)
      with assms False Some show ?thesis
        by (simp add: getHighlightedIndex_def Let_def split: if_splits)
    qed
  qed
qed

lemma neighbor_id_None:
  assumes "getHighlightedIndex state props = None"
  shows "neighbor_id state props delta = None"
  using getHighlightedIndex_None [OF assms]
  by (auto simp add: neighbor_id_def split: option.splits dest: nth_opt_in_set)

lemma handleShortcut_up:
  assumes "isMoveUp event"
  shows "handleShortcut state props event
           = (if getHighlightedIndex state props = Some (- 1) then passed_on
              else case neighbor_id state props (- 1) of
                     None \<Rightarrow> passed_on
                   | Some i \<Rightarrow> handled i)"
proof (cases "ToNumber (index state) < 0")
  case True
  then have "nth_opt (notes_prop props) (ToNumber (index state) + - 1) = None"
    by (simp add: nth_opt_negative)
  with True assms show ?thesis
    by (simp add: handleShortcut_def neighbor_id_def eq_commute [of "Some (- 1)"])
next
  case False
  with assms show ?thesis
    by (simp add: handleShortcut_def neighbor_id_def eq_commute [of "Some (- 1)"]
             split: option.splits)
qed

lemma handleShortcut_down:
  assumes "\<not> isMoveUp event" and "isMoveDown event"
  shows "handleShortcut state props event
           = (if getHighlightedIndex state props = Some (- 1) then passed_on
              else case neighbor_id state props 1 of
                     None \<Rightarrow> passed_on
                   | Some i \<Rightarrow> handled i)"
proof (cases "ToNumber (index state) \<ge> int (length (notes_prop props))")
  case True
  then have "nth_opt (notes_prop props) (ToNumber (index state) + 1) = None"
    by (simp add: nth_opt_beyond)
  with True assms show ?thesis
    by (simp add: handleShortcut_def neighbor_id_def eq_commute [of "Some (- 1)"])
next
  case False
  with assms show ?thesis
    by (simp add: handleShortcut_def neighbor_id_def eq_commute [of "Some (- 1)"]
             split: option.splits)
qed

text \<open>
  What the handler does with a move command, previous (Ctrl or Cmd, Shift, ArrowUp or
  k) or next (ArrowDown or j), in terms of the index recorded in the component's state,
  a recorded \<open>null\<close> counting as 0 in \<open>index - 1\<close> and \<open>index + 1\<close>: it passes the
  event on when \<open>getHighlightedIndex\<close> gives null or \<open>-1\<close>, or when the slot next to
  the recorded index holds no record with a valid identifier; otherwise it requests
  the selection of that slot's identifier and swallows the event.
\<close>

lemma handleShortcut_move:
  assumes "isMoveUp event \<or> isMoveDown event"
  shows "handleShortcut state props event
           = (case neighbor_id state props (if isMoveUp event then - 1 else 1) of
                None \<Rightarrow> passed_on
              | Some i \<Rightarrow>
                  if getHighlightedIndex state props = None
                     \<or> getHighlightedIndex state props = Some (- 1)
                  then passed_on else handled i)"
proof (cases "isMoveUp event")
  case True
  show ?thesis
  proof (cases "getHighlightedIndex state props = None")
    case none: True
    with True show ?thesis
      by (simp add: handleShortcut_up neighbor_id_None)
  next
    case False
    then obtain y where "getHighlightedIndex state props = Some y" by auto
    with True show ?thesis
      by (simp add: handleShortcut_up split: option.splits)
  qed
next
  case False
  with assms have down: "isMoveDown event" by simp
  show ?thesis
  proof (cases "getHighlightedIndex state props = None")
    case True
    with False down show ?thesis
      by (simp add: handleShortcut_down neighbor_id_None)
  next
    case nonempty: False
    then obtain y where "getHighlightedIndex state props = Some y" by auto
    with False down show ?thesis
      by (simp add: handleShortcut_down split: option.splits)
  qed
qed

text \<open>
  C6, at an input where the code departs from it. The component's state is as on
  mount, nothing recorded; the list is [A, B, C] and the selected note is C; the key
  is Ctrl+Shift+ArrowDown. No row is highlighted by the state, and the index that
  \<open>getHighlightedIndex\<close> resolves is 2, the last slot, whose next neighbour is past
  the end: either way the claim has the command passed on. The handler's test
  \<open>-1 === highlightedIndex\<close> does not hold (the resolver answers null, never \<open>-1\<close>,
  when there is nothing to highlight), the neighbour is read at \<open>notes[null + 1]\<close>,
  and the handler requests the selection of B and swallows the event.
\<close>

theorem handleShortcut_fresh_state:
  "getHighlightedIndex \<lparr>noteId = None, index = None\<rparr>
      \<lparr>notes_prop = [nA, nB, nC], openedTag = None, selectedNote = Some nC, showTrash = False\<rparr>
     = Some 2
   \<and> handleShortcut \<lparr>noteId = None, index = None\<rparr>
      \<lparr>notes_prop = [nA, nB, nC], openedTag = None, selectedNote = Some nC, showTrash = False\<rparr>
      \<lparr>ctrlKey = True, key = ''ArrowDown'', metaKey = False, shiftKey = True\<rparr>
     = \<lparr>returned = False, onSelectNote_calls = [''b''], stopPropagation = True,
        preventDefault = True\<rparr>"
  by (simp add: handleShortcut_def isMoveUp_def isMoveDown_def toLowerCase_def lower_char_def
        nth_opt_def ToNumber_def getHighlightedIndex_def same_id_def at_index_def falsy_def
        findIndex_def truthy_id_def handled_def nA_def nB_def nC_def)

subsection \<open>Resolving the highlighted index\<close>

text \<open>
  C5. For a non-empty list and an explicit selection whose record is not at the
  recorded index: when the selected identifier occurs in the list, the resolution is
  the index where it is found (the first such index); when it occurs nowhere, the
  resolution is the smaller of the recorded index and the last index of the list
  (a recorded index of null counts as 0, as \<open>Math.min\<close> takes it). With the list [A, C]
  and the selection B recorded at index 1 the resolution is 1, which is C.
\<close>

theorem getHighlightedIndex_moved_or_gone:
  assumes "notes_prop props \<noteq> []"
    and "selectedNote props = Some sel"
    and "\<not> same_id (Some sel) (at_index (notes_prop props) (index state))"
  shows "(id_of sel \<in> id_of ` set (notes_prop props) \<longrightarrow>
            (\<exists>i < length (notes_prop props).
                getHighlightedIndex state props = Some (int i)
              \<and> id_of (notes_prop props ! i) = id_of sel
              \<and> (\<forall>j < i. id_of (notes_prop props ! j) \<noteq> id_of sel)))
       \<and> (id_of sel \<notin> id_of ` set (notes_prop props) \<longrightarrow>
            getHighlightedIndex state props
              = Some (min (ToNumber (index state)) (int (length (notes_prop props)) - 1)))"
proof (cases "id_of sel \<in> id_of ` set (notes_prop props)")
  case True
  then have "\<exists>x \<in> set (notes_prop props). same_id (Some x) (Some sel)"
    by (auto simp add: same_id_Some)
  from findIndex_some [OF this] obtain i where
    i: "i < length (notes_prop props)"
       "findIndex (\<lambda>item. same_id (Some item) (Some sel)) (notes_prop props) = int i"
       "same_id (Some (notes_prop props ! i)) (Some sel)"
       "\<forall>j < i. \<not> same_id (Some (notes_prop props ! j)) (Some sel)"
    by blast
  have "getHighlightedIndex state props = Some (int i)"
    using assms i(2) by (simp add: getHighlightedIndex_def Let_def)
  with i True show ?thesis by (auto simp add: same_id_Some)
next
  case False
  then have "\<forall>x \<in> set (notes_prop props). \<not> same_id (Some x) (Some sel)"
    by (metis same_id_Some imageI)
  from findIndex_none [OF this]
  have "findIndex (\<lambda>item. same_id (Some item) (Some sel)) (notes_prop props) = - 1" .
  then have "getHighlightedIndex state props
      = Some (min (ToNumber (index state)) (int (length (notes_prop props)) - 1))"
    using assms by (simp add: getHighlightedIndex_def Let_def)
  with False show ?thesis by simp
qed

theorem getHighlightedIndex_moved_or_gone_witness:
  "getHighlightedIndex \<lparr>noteId = Some ''b'', index = Some 1\<rparr>
      \<lparr>notes_prop = [nA, nC], openedTag = None, selectedNote = Some nB, showTrash = False\<rparr>
     = Some 1
   \<and> getHighlightedIndex \<lparr>noteId = Some ''b'', index = Some 1\<rparr>
      \<lparr>notes_prop = [nC, nA, nB], openedTag = None, selectedNote = Some nB, showTrash = False\<rparr>
     = Some 2"
proof -
  have gone: "getHighlightedIndex \<lparr>noteId = Some ''b'', index = Some 1\<rparr>
      \<lparr>notes_prop = [nA, nC], openedTag = None, selectedNote = Some nB, showTrash = False\<rparr>
     = Some 1"
    using getHighlightedIndex_moved_or_gone [of
        "\<lparr>notes_prop = [nA, nC], openedTag = None, selectedNote = Some nB, showTrash = False\<rparr>"
        nB "\<lparr>noteId = Some ''b'', index = Some 1\<rparr>"]
    by (simp add: same_id_def at_index_def nth_opt_def ToNumber_def nA_def nB_def nC_def)
  obtain i where "i < 3"
    and r: "getHighlightedIndex \<lparr>noteId = Some ''b'', index = Some 1\<rparr>
      \<lparr>notes_prop = [nC, nA, nB], openedTag = None, selectedNote = Some nB, showTrash = False\<rparr>
     = Some (int i)"
    and "id_of ([nC, nA, nB] ! i) = id_of nB"
    using getHighlightedIndex_moved_or_gone [of
        "\<lparr>notes_prop = [nC, nA, nB], openedTag = None, selectedNote = Some nB, showTrash = False\<rparr>"
        nB "\<lparr>noteId = Some ''b'', index = Some 1\<rparr>"]
    by (auto simp add: same_id_def at_index_def nth_opt_def nA_def nB_def nC_def)
  then have "i = 2"
    by (cases i rule: nat.exhaust; simp add: nA_def nB_def nC_def nth_Cons split: nat.splits)
  with gone r show ?thesis by simp
qed

subsection \<open>Receiving new props\<close>

text \<open>
  What \<open>UNSAFE_componentWillReceiveProps\<close> does when it does not return at its first
  test and the resolution gives an index inside the incoming list: it calls
  \<open>onSelectNote\<close> with the identifier at that index exactly when no note is selected
  or the selected note has another identifier, and records that identifier and index.
\<close>

lemma componentWillReceiveProps_selects:
  assumes "\<not> keepsSelection state thisProps nextProps"
    and "getHighlightedIndex state nextProps = Some nextIndex"
    and "nth_opt (notes_prop nextProps) nextIndex = Some target"
  shows "componentWillReceiveProps state thisProps nextProps
           = Inr (\<lparr>noteId = Some (id_of target), index = Some nextIndex\<rparr>,
                  if same_id (selectedNote nextProps) (Some target) then [] else [id_of target])"
  using assms
  by (auto simp add: componentWillReceiveProps_def same_id_def)

text \<open>
  C9, at an input where the code departs from it. The state records C at index 2; the
  incoming list is [A, B] and no note is selected. The first test fails, so the
  resolution runs; with no selected note and a recorded index it returns that index
  as it is, 2, where the branch for a selected note that is gone clamps it with
  \<open>Math.min(index, notes.length - 1)\<close>. Nothing was selected, so the claim has a
  selection request made; reading \<open>notes[2].id\<close> throws instead, and no request is
  made and no state is recorded.
\<close>

theorem componentWillReceiveProps_stale_index:
  "\<not> keepsSelection \<lparr>noteId = Some ''c'', index = Some 2\<rparr>
      \<lparr>notes_prop = [nA, nB, nC], openedTag = None, selectedNote = Some nC, showTrash = False\<rparr>
      \<lparr>notes_prop = [nA, nB], openedTag = None, selectedNote = None, showTrash = False\<rparr>
   \<and> getHighlightedIndex \<lparr>noteId = Some ''c'', index = Some 2\<rparr>
      \<lparr>notes_prop = [nA, nB], openedTag = None, selectedNote = None, showTrash = False\<rparr>
     = Some 2
   \<and> componentWillReceiveProps \<lparr>noteId = Some ''c'', index = Some 2\<rparr>
      \<lparr>notes_prop = [nA, nB, nC], openedTag = None, selectedNote = Some nC, showTrash = False\<rparr>
      \<lparr>notes_prop = [nA, nB], openedTag = None, selectedNote = None, showTrash = False\<rparr>
     = Inl TypeError"
  by (simp add: componentWillReceiveProps_def keepsSelection_def getHighlightedIndex_def
        same_id_def at_index_def nth_opt_def falsy_def findIndex_def)

end
